theory Spec2Isabelle
  imports Main "HOL-Library.Multiset"
begin

section \<open>The broadcast relay of index.js\<close>

text \<open>
  The program is a single-threaded event loop: every piece of code between two
  \<^verbatim>\<open>await\<close>s (or a whole synchronous request handler) runs without interruption.
  The model therefore has one event per such block; the order of the events is chosen
  by the environment.  The five module-level variables of the radio section
  (index.js, lines 62-66) form the record \<open>radio\<close>; the position of the background task
  \<^verbatim>\<open>autoDJLoop\<close> is the datatype \<open>pc\<close>; what the sinks received and what the handlers
  answered are kept in two logs.
\<close>

subsection \<open>Values\<close>

type_synonym chunk = string

text \<open>
  A dynamically typed value, as far as the handlers look at it: its truthiness and
  whether \<^verbatim>\<open>typeof v === 'string'\<close>.  \<open>JUndefined\<close> is also a missing property;
  \<open>JObject\<close> stands for every object and array.
\<close>

datatype jsval = JUndefined | JNull | JBool bool | JNumber int | JString string | JObject

fun truthy :: "jsval \<Rightarrow> bool" where
  "truthy JUndefined = False"
| "truthy JNull = False"
| "truthy (JBool b) = b"
| "truthy (JNumber n) = (n \<noteq> 0)"
| "truthy (JString s) = (s \<noteq> [])"
| "truthy JObject = True"

fun typeof_string :: "jsval \<Rightarrow> bool" where
  "typeof_string (JString s) = True"
| "typeof_string v = False"

text \<open>
  \<^verbatim>\<open>currentAutoDJIndex++\<close> on a number: exact below \<open>2^53\<close>; at \<open>2^53\<close> the sum
  \<open>2^53 + 1\<close> is not representable and rounds back to \<open>2^53\<close>.  Starting from 0 the
  cursor is therefore always a natural number of at most \<open>2^53\<close>.
\<close>

definition js_increment :: "nat \<Rightarrow> nat" where
  "js_increment n = (if n < 2 ^ 53 then n + 1 else n)"

subsection \<open>Responses\<close>

datatype payload =
    Text string
  | Message string
  | CurrentTrackTitle jsval
  | ActiveListeners nat
  | UniqueIPsCount nat
  | ErrorText string
  | ErrorPage

text \<open>\<open>headers\<close> holds the headers that the program sets itself (\<^verbatim>\<open>res.setHeader\<close>).\<close>

record response =
  status :: nat
  headers :: "(string \<times> string) list"
  payload :: payload

definition reply :: "nat \<Rightarrow> payload \<Rightarrow> response" where
  "reply code p = \<lparr>status = code, headers = [], payload = p\<rparr>"

text \<open>
  A handler that throws synchronously is answered by the framework's default error handler;
  \<open>ErrorPage\<close> is the page it renders.
\<close>

definition uncaught :: response where
  "uncaught = reply 500 ErrorPage"

subsection \<open>State\<close>

text \<open>
  A listener is the response object of an open \<^verbatim>\<open>/listen\<close> connection.  \<open>sid\<close> is its
  identity (\<^verbatim>\<open>r !== res\<close> compares objects); \<open>on_write\<close> is what \<^verbatim>\<open>r.write(chunk)\<close> does at
  present: the chunk goes out, the call reports failure without throwing (a destroyed or
  ended stream: the chunk is lost), or the call throws.
\<close>

datatype write_result = Written | Dropped | Thrown

record sink =
  sid :: nat
  on_write :: write_result

record track =
  title :: jsval
  url :: jsval

record radio =
  listeners :: "sink list"
  isLive :: bool
  autodjTracks :: "track list"
  currentAutoDJIndex :: nat
  liveTitle :: jsval

definition initial :: radio where
  "initial = \<lparr>listeners = [], isLive = False, autodjTracks = [],
     currentAutoDJIndex = 0, liveTitle = JString []\<rparr>"

subsection \<open>Fan-out\<close>

text \<open>
  \<^verbatim>\<open>listeners.forEach(r => r.write(chunk))\<close> (lines 122 and 142).  The result is the list of
  deliveries (sink, chunk) in order, and whether the loop ran to its end: an exception
  thrown by one \<open>write\<close> leaves \<open>forEach\<close> at once.
\<close>

type_synonym delivery = "nat \<times> chunk"

fun forEach_write :: "sink list \<Rightarrow> chunk \<Rightarrow> delivery list \<times> bool" where
  "forEach_write [] c = ([], True)"
| "forEach_write (r # rs) c =
     (case on_write r of
        Thrown \<Rightarrow> ([], False)
      | Dropped \<Rightarrow> forEach_write rs c
      | Written \<Rightarrow> (case forEach_write rs c of (ds, ok) \<Rightarrow> ((sid r, c) # ds, ok)))"

subsection \<open>Catalog loading (lines 69-84)\<close>

text \<open>
  The object that the feed parser hands to the callback, as the code reads it:
  \<^verbatim>\<open>result.rss.channel[0].item\<close>, and per item \<^verbatim>\<open>item.title[0]\<close> and
  \<^verbatim>\<open>item.enclosure[0].$.url\<close>.  \<open>None\<close> is a missing property (\<^verbatim>\<open>undefined\<close>).
  The parser creates the property for a child element only when the element occurs,
  so a channel without any \<^verbatim>\<open><item>\<close> is \<open>item = None\<close>.
\<close>

record rss_enclosure =
  dollar :: "(string \<times> string) list option"

record rss_item =
  item_title :: "jsval list option"
  item_enclosure :: "rss_enclosure list option"

record rss_channel =
  item :: "rss_item list option"

record rss_root =
  channel :: "rss_channel list option"

record parsed =
  rss :: "rss_root option"

datatype rss_outcome =
    FetchFailed
  | TextFailed
  | ParseError
  | Parsed "parsed option"

text \<open>\<open>None\<close> is a thrown TypeError (a property read on \<^verbatim>\<open>undefined\<close> or \<^verbatim>\<open>null\<close>).\<close>

definition item_to_track :: "rss_item \<Rightarrow> track option" where
  "item_to_track it =
     (case item_title it of
        None \<Rightarrow> None
      | Some ts \<Rightarrow>
          (case item_enclosure it of
             None \<Rightarrow> None
           | Some [] \<Rightarrow> None
           | Some (e # _) \<Rightarrow>
               (case dollar e of
                  None \<Rightarrow> None
                | Some attrs \<Rightarrow>
                    Some \<lparr>title = (case ts of [] \<Rightarrow> JUndefined | t # _ \<Rightarrow> t),
                          url = (case map_of attrs ''url'' of
                                   None \<Rightarrow> JUndefined
                                 | Some u \<Rightarrow> JString u)\<rparr>)))"

definition extract_tracks :: "parsed option \<Rightarrow> track list option" where
  "extract_tracks result =
     (case result of
        None \<Rightarrow> None
      | Some r \<Rightarrow>
          (case rss r of
             None \<Rightarrow> None
           | Some root \<Rightarrow>
               (case channel root of
                  None \<Rightarrow> None
                | Some [] \<Rightarrow> None
                | Some (ch # _) \<Rightarrow>
                    (case item ch of
                       None \<Rightarrow> None
                     | Some items \<Rightarrow> those (map item_to_track items)))))"

text \<open>
  \<^verbatim>\<open>autodjTracks = ...map(...)\<close> is assigned only when the whole right-hand side has been
  computed; a rejected fetch, a rejected \<^verbatim>\<open>res.text()\<close>, a parse error and a TypeError
  in the callback all end in a log line.
\<close>

definition loadRSS :: "rss_outcome \<Rightarrow> radio \<Rightarrow> radio" where
  "loadRSS outcome s =
     (case outcome of
        Parsed result \<Rightarrow>
          (case extract_tracks result of
             Some ts \<Rightarrow> s\<lparr>autodjTracks := ts\<rparr>
           | None \<Rightarrow> s)
      | _ \<Rightarrow> s)"

subsection \<open>The AutoDJ loop (lines 91-134)\<close>

text \<open>
  The places where \<^verbatim>\<open>autoDJLoop\<close> waits: the one-second timers of lines 95 and 100
  (\<open>Sleeping\<close>), the fetch of line 109 (\<open>Fetching\<close>), the next chunk of the body in line 112
  (\<open>Reading\<close>), the one-second timer of line 119 (\<open>Paused\<close>), and the closing of the body's
  iterator, which \<^verbatim>\<open>for await\<close> awaits when the loop is left by \<^verbatim>\<open>break\<close> or by an
  exception of its body (\<open>Closing\<close>).  The local \<^verbatim>\<open>trackFinished\<close> is true at the first
  four and false at the last.  The track is the local \<^verbatim>\<open>track\<close>.

  \<open>FetchRejected\<close> is every exception of lines 109-112 before the first chunk is awaited
  (a rejected fetch, a response without body); \<open>StreamError\<close> is a rejected read.
\<close>

datatype pc =
    Sleeping
  | Fetching track
  | Reading track
  | Paused track
  | Closing

datatype sched_event =
    TimerFired
  | FetchResolved
  | FetchRejected
  | Chunk chunk
  | StreamEnd
  | StreamError
  | IteratorClosed

text \<open>Lines 94-109: from the head of the loop to the next \<^verbatim>\<open>await\<close>.\<close>

definition loop_head :: "radio \<Rightarrow> pc" where
  "loop_head s =
     (if isLive s \<or> length (autodjTracks s) = 0 then Sleeping
      else if length (listeners s) = 0 then Sleeping
      else Fetching (autodjTracks s ! (currentAutoDJIndex s mod length (autodjTracks s))))"

text \<open>Lines 129-133, followed by the head of the loop.\<close>

definition after_track :: "bool \<Rightarrow> radio \<Rightarrow> pc \<times> radio" where
  "after_track trackFinished s =
     (let s' = (if trackFinished
                then s\<lparr>currentAutoDJIndex := js_increment (currentAutoDJIndex s)\<rparr>
                else s)
      in (loop_head s', s'))"

fun autoDJLoop :: "sched_event \<Rightarrow> pc \<Rightarrow> radio \<Rightarrow> pc \<times> radio \<times> delivery list" where
  "autoDJLoop TimerFired Sleeping s = (loop_head s, s, [])"
| "autoDJLoop FetchResolved (Fetching t) s = (Reading t, s, [])"
| "autoDJLoop FetchRejected (Fetching t) s =
     (case after_track False s of (p, s') \<Rightarrow> (p, s', []))"
| "autoDJLoop (Chunk c) (Reading t) s =
     (if isLive s then (Closing, s, [])
      else if length (listeners s) = 0 then (Paused t, s, [])
      else (case forEach_write (listeners s) c of
              (ds, True) \<Rightarrow> (Reading t, s, ds)
            | (ds, False) \<Rightarrow> (Closing, s, ds)))"
| "autoDJLoop IteratorClosed Closing s =
     (case after_track False s of (p, s') \<Rightarrow> (p, s', []))"
| "autoDJLoop StreamEnd (Reading t) s =
     (case after_track True s of (p, s') \<Rightarrow> (p, s', []))"
| "autoDJLoop StreamError (Reading t) s =
     (case after_track False s of (p, s') \<Rightarrow> (p, s', []))"
| "autoDJLoop TimerFired (Paused t) s = (Reading t, s, [])"
| "autoDJLoop ev p s = (p, s, [])"

subsection \<open>Request handlers\<close>

text \<open>
  The middleware of lines 23-24 runs before every route, in the order of registration.  On
  the ingest route this matters for the answer, since the credentials are checked after it;
  there it is part of the model (\<open>live_route\<close>).  The other handlers are taken from the
  point where the request reaches them.
\<close>

record credentials =
  name :: string
  pass :: string

text \<open>Lines 27-34; \<open>None\<close> is \<^verbatim>\<open>next()\<close>.\<close>

definition unauthorized :: response where
  "unauthorized =
     \<lparr>status = 401,
      headers = [(''WWW-Authenticate'',
        ''Basic realm='' @ [CHR 0x22] @ ''Authorization Required'' @ [CHR 0x22])],
      payload = Text ''Authentication required''\<rparr>"

definition basicAuthMiddleware :: "credentials option \<Rightarrow> response option" where
  "basicAuthMiddleware user =
     (case user of
        None \<Rightarrow> Some unauthorized
      | Some u \<Rightarrow>
          if name u \<noteq> ''supernatural'' \<or> pass u \<noteq> ''supernatural''
          then Some unauthorized else None)"

text \<open>
  What the JSON parser of line 24 does with a request: it passes it on (the body is not
  announced as JSON, or it is and parses), or it answers itself with the status of its
  error, 400 for a body announced as JSON that does not parse, and no later middleware
  runs.
\<close>

datatype json_verdict = JsonPassed | JsonRejected nat

text \<open>
  What the raw body parser of line 138 leaves in \<^verbatim>\<open>req.body\<close>: a buffer, or something that
  is not a buffer (no body was sent, or the JSON parser of line 24 took the body first), on
  which every \<open>write\<close> throws.  \<open>too_large\<close>: the body exceeds the limit of line 138 and the
  parser answers instead of the handler.
\<close>

datatype raw_body = Buffer chunk | NotBuffer

record live_request =
  json_parser :: json_verdict
  auth :: "credentials option"
  too_large :: bool
  body :: raw_body

text \<open>Lines 140-144.\<close>

definition post_live :: "raw_body \<Rightarrow> radio \<Rightarrow> response \<times> radio \<times> delivery list" where
  "post_live b s =
     (let s' = s\<lparr>isLive := True\<rparr> in
      case b of
        Buffer c \<Rightarrow>
          (case forEach_write (listeners s') c of
             (ds, True) \<Rightarrow> (reply 200 (Text ''OK''), s', ds)
           | (ds, False) \<Rightarrow> (uncaught, s', ds))
      | NotBuffer \<Rightarrow> (if listeners s' = [] then reply 200 (Text ''OK'') else uncaught, s', []))"

text \<open>
  A push on its way to the handler: the JSON parser of line 24, then the chain of line 138,
  the credential check and the raw body parser, then the handler of line 140.
\<close>

definition live_route :: "live_request \<Rightarrow> radio \<Rightarrow> response \<times> radio \<times> delivery list" where
  "live_route req s =
     (case json_parser req of
        JsonRejected code \<Rightarrow> (reply code ErrorPage, s, [])
      | JsonPassed \<Rightarrow>
          (case basicAuthMiddleware (auth req) of
             Some r \<Rightarrow> (r, s, [])
           | None \<Rightarrow>
               if too_large req then (reply 413 ErrorPage, s, [])
               else post_live (body req) s))"

text \<open>Lines 146-152: the new response object joins the list.\<close>

definition listen :: "sink \<Rightarrow> radio \<Rightarrow> radio" where
  "listen res s = s\<lparr>listeners := listeners s @ [res]\<rparr>"

text \<open>Line 160, the \<^verbatim>\<open>close\<close> callback of the connection with identity \<open>i\<close>.\<close>

definition on_close :: "nat \<Rightarrow> radio \<Rightarrow> radio" where
  "on_close i s = s\<lparr>listeners := filter (\<lambda>r. sid r \<noteq> i) (listeners s)\<rparr>"

text \<open>Lines 164-172; the argument is the \<^verbatim>\<open>title\<close> property of the JSON body.\<close>

definition update_live_title :: "jsval \<Rightarrow> radio \<Rightarrow> response \<times> radio" where
  "update_live_title t s =
     (if \<not> truthy t \<or> \<not> typeof_string t
      then (reply 400 (Message ''Invalid title format.''), s)
      else (reply 200 (Message ''Live title updated.''), s\<lparr>liveTitle := t\<rparr>))"

text \<open>Lines 174-186.\<close>

definition current_track :: "radio \<Rightarrow> response" where
  "current_track s =
     (if isLive s then
        (if truthy (liveTitle s) then reply 200 (CurrentTrackTitle (liveTitle s))
         else reply 404 (Message ''Live stream is on, but no title set.''))
      else if length (autodjTracks s) = 0 then reply 404 (Message ''No AutoDJ track loaded.'')
      else reply 200 (CurrentTrackTitle
             (title (autodjTracks s ! (currentAutoDJIndex s mod length (autodjTracks s))))))"

text \<open>
  Lines 189-203.  The attendance store is outside the program: \<open>aggregate\<close> is its answer
  to the ranged query, the number of distinct addresses, or \<open>None\<close> when the query throws
  (also when the database handle is still undefined).
\<close>

definition listener_stats :: "(jsval \<Rightarrow> jsval \<Rightarrow> nat option) \<Rightarrow> jsval \<Rightarrow> jsval \<Rightarrow> radio \<Rightarrow> response" where
  "listener_stats aggregate start end s =
     (if \<not> truthy start \<or> \<not> truthy end then reply 200 (ActiveListeners (length (listeners s)))
      else (case aggregate start end of
              Some n \<Rightarrow> reply 200 (UniqueIPsCount n)
            | None \<Rightarrow> reply 500 (ErrorText ''Error fetching stats.'')))"

subsection \<open>The whole process\<close>

text \<open>
  One event per synchronous block: a resumption of the background task, a request to one of
  the routes, the \<^verbatim>\<open>close\<close> callback of a listener's connection, a completed run of
  \<^verbatim>\<open>loadRSS\<close>.  \<open>Socket\<close> is the only event that is not code: the connection of a listener
  changes what its \<open>write\<close> does.  \<open>fresh\<close> numbers the response objects, so that no two
  of them share an identity; \<open>wire\<close> collects the deliveries and \<open>replies\<close> the answers.
\<close>

datatype event =
    Sched sched_event
  | LivePush live_request
  | Listen write_result
  | Closed nat
  | Socket nat write_result
  | UpdateLiveTitle jsval
  | CurrentTrack
  | ListenerStats jsval jsval "nat option"
  | LoadRSS rss_outcome

record world =
  globals :: radio
  at :: pc
  fresh :: nat
  wire :: "delivery list"
  replies :: "response list"

definition boot :: world where
  "boot = \<lparr>globals = initial, at = loop_head initial, fresh = 0, wire = [], replies = []\<rparr>"

fun step :: "event \<Rightarrow> world \<Rightarrow> world" where
  "step (Sched ev) w =
     (case autoDJLoop ev (at w) (globals w) of
        (p, s, ds) \<Rightarrow> w\<lparr>globals := s, at := p, wire := wire w @ ds\<rparr>)"
| "step (LivePush req) w =
     (case live_route req (globals w) of
        (r, s, ds) \<Rightarrow> w\<lparr>globals := s, wire := wire w @ ds, replies := replies w @ [r]\<rparr>)"
| "step (Listen wr) w =
     w\<lparr>globals := listen \<lparr>sid = fresh w, on_write = wr\<rparr> (globals w), fresh := Suc (fresh w)\<rparr>"
| "step (Closed i) w = w\<lparr>globals := on_close i (globals w)\<rparr>"
| "step (Socket i wr) w =
     w\<lparr>globals := (globals w)\<lparr>listeners :=
          map (\<lambda>r. if sid r = i then r\<lparr>on_write := wr\<rparr> else r) (listeners (globals w))\<rparr>\<rparr>"
| "step (UpdateLiveTitle t) w =
     (case update_live_title t (globals w) of
        (r, s) \<Rightarrow> w\<lparr>globals := s, replies := replies w @ [r]\<rparr>)"
| "step CurrentTrack w = w\<lparr>replies := replies w @ [current_track (globals w)]\<rparr>"
| "step (ListenerStats start end answer) w =
     w\<lparr>replies := replies w @ [listener_stats (\<lambda>a b. answer) start end (globals w)]\<rparr>"
| "step (LoadRSS outcome) w = w\<lparr>globals := loadRSS outcome (globals w)\<rparr>"

fun run :: "world \<Rightarrow> event list \<Rightarrow> world" where
  "run w [] = w"
| "run w (e # es) = run (step e w) es"

subsection \<open>Observations on runs\<close>

fun reading :: "pc \<Rightarrow> bool" where
  "reading (Reading t) = True"
| "reading p = False"

text \<open>The number of times a body reached its end while the loop was reading it.\<close>

fun full_plays :: "world \<Rightarrow> event list \<Rightarrow> nat" where
  "full_plays w [] = 0"
| "full_plays w (e # es) =
     (if e = Sched StreamEnd \<and> reading (at w) then 1 else 0) + full_plays (step e w) es"

text \<open>
  The events of one track played without any other activity: the fetch resolves, the
  chunks \<open>cs\<close> arrive one by one, the body ends.
\<close>

definition play :: "chunk list \<Rightarrow> event list" where
  "play cs = Sched FetchResolved # map (\<lambda>c. Sched (Chunk c)) cs @ [Sched StreamEnd]"

text \<open>
  A state in which the loop can play without interruption: not live, a catalog, at least
  one listener, and no listener whose \<open>write\<close> throws.
\<close>

definition quiet :: "radio \<Rightarrow> bool" where
  "quiet s \<longleftrightarrow> \<not> isLive s \<and> autodjTracks s \<noteq> [] \<and> listeners s \<noteq> [] \<and>
     list_all (\<lambda>r. on_write r \<noteq> Thrown) (listeners s)"

subsection \<open>Sample inputs\<close>

definition track_A :: track where
  "track_A = \<lparr>title = JString ''A'', url = JString ''a.mp3''\<rparr>"

definition track_B :: track where
  "track_B = \<lparr>title = JString ''B'', url = JString ''b.mp3''\<rparr>"

definition item_of :: "string \<Rightarrow> string \<Rightarrow> rss_item" where
  "item_of t u = \<lparr>item_title = Some [JString t],
     item_enclosure = Some [\<lparr>dollar = Some [(''url'', u), (''type'', ''audio/mpeg'')]\<rparr>]\<rparr>"

definition feed_AB :: "parsed option" where
  "feed_AB = Some \<lparr>rss = Some \<lparr>channel = Some
     [\<lparr>item = Some [item_of ''A'' ''a.mp3'', item_of ''B'' ''b.mp3'']\<rparr>]\<rparr>\<rparr>"

text \<open>A feed that parses but has a channel without items.\<close>

definition feed_without_items :: "parsed option" where
  "feed_without_items = Some \<lparr>rss = Some \<lparr>channel = Some [\<lparr>item = None\<rparr>]\<rparr>\<rparr>"

text \<open>
  The process after its start, a first successful load of the two-track feed, the arrival
  of one listener and the end of the first sleep: the loop has chosen a track and waits
  for its fetch.
\<close>

definition studio :: world where
  "studio = run boot [LoadRSS (Parsed feed_AB), Listen Written, Sched TimerFired]"

definition good_credentials :: credentials where
  "good_credentials = \<lparr>name = ''supernatural'', pass = ''supernatural''\<rparr>"

section \<open>Auxiliary facts\<close>

lemma forEach_write_char:
  "forEach_write rs c =
     (map (\<lambda>r. (sid r, c))
        (filter (\<lambda>r. on_write r = Written) (takeWhile (\<lambda>r. on_write r \<noteq> Thrown) rs)),
      list_all (\<lambda>r. on_write r \<noteq> Thrown) rs)"
  by (induction rs) (auto split: write_result.splits prod.splits)

lemma run_append: "run w (es @ fs) = run (run w es) fs"
  by (induction es arbitrary: w) auto

lemma step_at_env: "(\<And>ev. e \<noteq> Sched ev) \<Longrightarrow> at (step e w) = at w"
  by (cases e) (auto split: prod.splits)

lemma autoDJLoop_globals:
  "autoDJLoop ev p s = (p', s', ds) \<Longrightarrow>
   s' = (if ev = StreamEnd \<and> reading p
         then s\<lparr>currentAutoDJIndex := js_increment (currentAutoDJIndex s)\<rparr> else s)"
  by (induction ev p s rule: autoDJLoop.induct)
     (auto simp: after_track_def Let_def split: prod.splits if_splits bool.splits)

lemma cursor_step:
  "currentAutoDJIndex (globals (step e w)) =
     (if e = Sched StreamEnd \<and> reading (at w) then js_increment (currentAutoDJIndex (globals w))
      else currentAutoDJIndex (globals w))"
proof (cases e)
  case (Sched ev)
  then show ?thesis using autoDJLoop_globals[of ev "at w" "globals w"]
    by (auto split: prod.splits)
next
  case (LivePush req)
  then show ?thesis
    by (auto simp: live_route_def post_live_def Let_def
        split: prod.splits option.splits if_splits raw_body.splits bool.splits
          json_verdict.splits)
next
  case (LoadRSS out)
  then show ?thesis by (auto simp: loadRSS_def split: rss_outcome.splits option.splits)
qed (auto simp: listen_def on_close_def update_live_title_def split: prod.splits if_splits)

lemma cursor_run:
  "currentAutoDJIndex (globals w) + full_plays w es \<le> 2 ^ 53 \<Longrightarrow>
   currentAutoDJIndex (globals (run w es)) = currentAutoDJIndex (globals w) + full_plays w es"
proof (induction es arbitrary: w)
  case Nil
  then show ?case by simp
next
  case (Cons e es)
  show ?case
  proof (cases "e = Sched StreamEnd \<and> reading (at w)")
    case True
    with Cons.prems have lt: "currentAutoDJIndex (globals w) < 2 ^ 53" by simp
    have c: "currentAutoDJIndex (globals (step e w)) = currentAutoDJIndex (globals w) + 1"
      using True lt by (simp add: cursor_step js_increment_def del: step.simps)
    with Cons.prems True
    have "currentAutoDJIndex (globals (step e w)) + full_plays (step e w) es \<le> 2 ^ 53"
      by simp
    from Cons.IH[OF this] c True show ?thesis by simp
  next
    case False
    then have c: "currentAutoDJIndex (globals (step e w)) = currentAutoDJIndex (globals w)"
      by (auto simp add: cursor_step simp del: step.simps)
    with Cons.prems False
    have "currentAutoDJIndex (globals (step e w)) + full_plays (step e w) es \<le> 2 ^ 53"
      by auto
    from Cons.IH[OF this] c False show ?thesis by auto
  qed
qed

lemma isLive_step:
  assumes "isLive (globals w)"
  shows "isLive (globals (step e w))"
proof (cases e)
  case (Sched ev)
  then show ?thesis using assms autoDJLoop_globals[of ev "at w" "globals w"]
    by (auto split: prod.splits if_splits)
next
  case (LivePush req)
  then show ?thesis using assms
    by (auto simp: live_route_def post_live_def Let_def
        split: prod.splits option.splits if_splits raw_body.splits bool.splits
          json_verdict.splits)
next
  case (LoadRSS out)
  then show ?thesis using assms
    by (auto simp: loadRSS_def split: rss_outcome.splits option.splits)
qed (use assms in \<open>auto simp: listen_def on_close_def update_live_title_def
       split: prod.splits if_splits\<close>)

lemma isLive_run: "isLive (globals w) \<Longrightarrow> isLive (globals (run w es))"
  by (induction es arbitrary: w) (auto intro: isLive_step)

lemma run_chunks:
  "at w = Reading t \<Longrightarrow> \<not> isLive (globals w) \<Longrightarrow> listeners (globals w) \<noteq> [] \<Longrightarrow>
   list_all (\<lambda>r. on_write r \<noteq> Thrown) (listeners (globals w)) \<Longrightarrow>
   run w (map (\<lambda>c. Sched (Chunk c)) cs) =
     w\<lparr>wire := wire w @ concat (map (\<lambda>c. fst (forEach_write (listeners (globals w)) c)) cs)\<rparr>"
proof (induction cs arbitrary: w)
  case Nil
  then show ?case by simp
next
  case (Cons c cs)
  let ?w = "step (Sched (Chunk c)) w"
  have st: "?w = w\<lparr>wire := wire w @ fst (forEach_write (listeners (globals w)) c)\<rparr>"
    using Cons.prems by (simp add: forEach_write_char)
  have "run ?w (map (\<lambda>c. Sched (Chunk c)) cs) =
     ?w\<lparr>wire := wire ?w @ concat (map (\<lambda>c. fst (forEach_write (listeners (globals ?w)) c)) cs)\<rparr>"
    by (rule Cons.IH) (use Cons.prems st in auto)
  then show ?case using st by simp
qed

lemma run_play:
  assumes "at w = Fetching t" "\<not> isLive (globals w)" "listeners (globals w) \<noteq> []"
    "list_all (\<lambda>r. on_write r \<noteq> Thrown) (listeners (globals w))"
  shows "run w (play cs) =
     w\<lparr>globals := (globals w)\<lparr>currentAutoDJIndex := js_increment (currentAutoDJIndex (globals w))\<rparr>,
       at := loop_head ((globals w)\<lparr>currentAutoDJIndex := js_increment (currentAutoDJIndex (globals w))\<rparr>),
       wire := wire w @ concat (map (\<lambda>c. fst (forEach_write (listeners (globals w)) c)) cs)\<rparr>"
proof -
  let ?w1 = "w\<lparr>at := Reading t\<rparr>"
  have 1: "step (Sched FetchResolved) w = ?w1" using assms by simp
  have 2: "run ?w1 (map (\<lambda>c. Sched (Chunk c)) cs) =
     ?w1\<lparr>wire := wire ?w1 @ concat (map (\<lambda>c. fst (forEach_write (listeners (globals ?w1)) c)) cs)\<rparr>"
    by (rule run_chunks[where t = t]) (use assms in auto)
  show ?thesis
    unfolding play_def using 1 2 by (simp add: run_append after_track_def Let_def)
qed

lemma loop_head_quiet:
  "quiet s \<Longrightarrow>
   loop_head s = Fetching (autodjTracks s ! (currentAutoDJIndex s mod length (autodjTracks s)))"
  by (simp add: quiet_def loop_head_def)

lemma run_plays:
  "quiet (globals w) \<Longrightarrow> at w = loop_head (globals w) \<Longrightarrow>
   currentAutoDJIndex (globals w) + length css \<le> 2 ^ 53 \<Longrightarrow>
   globals (run w (concat (map play css))) =
     (globals w)\<lparr>currentAutoDJIndex := currentAutoDJIndex (globals w) + length css\<rparr> \<and>
   at (run w (concat (map play css))) =
     loop_head ((globals w)\<lparr>currentAutoDJIndex := currentAutoDJIndex (globals w) + length css\<rparr>)"
proof (induction css arbitrary: w)
  case Nil
  then show ?case by simp
next
  case (Cons cs css)
  let ?g = "(globals w)\<lparr>currentAutoDJIndex := js_increment (currentAutoDJIndex (globals w))\<rparr>"
  let ?w = "run w (play cs)"
  obtain t where t: "at w = Fetching t"
    using Cons.prems loop_head_quiet by metis
  have q: "\<not> isLive (globals w)" "listeners (globals w) \<noteq> []"
    "list_all (\<lambda>r. on_write r \<noteq> Thrown) (listeners (globals w))"
    using Cons.prems(1) by (simp_all add: quiet_def)
  have inc: "js_increment (currentAutoDJIndex (globals w)) = currentAutoDJIndex (globals w) + 1"
    using Cons.prems(3) by (simp add: js_increment_def)
  have g: "globals ?w = ?g" and a: "at ?w = loop_head ?g"
    using run_play[OF t q, of cs] by simp_all
  have q': "quiet (globals ?w)" using Cons.prems(1) g by (simp add: quiet_def)
  have b: "currentAutoDJIndex (globals ?w) + length css \<le> 2 ^ 53"
    using Cons.prems(3) g inc by simp
  from Cons.IH[OF q' _ b] a g inc show ?case
    by (simp add: run_append)
qed

lemma cycle_rotate:
  "map (\<lambda>k. xs ! ((c + k) mod length xs)) [0..<length xs] = rotate c xs"
  by (rule nth_equalityI) (simp_all add: nth_rotate)

lemma mset_rotate_eq: "mset (rotate n xs) = mset xs"
proof -
  let ?k = "n mod length xs"
  have "mset (take ?k xs @ drop ?k xs) = mset xs" by simp
  then have "mset (drop ?k xs @ take ?k xs) = mset xs"
    by (simp only: mset_append add.commute)
  then show ?thesis by (simp only: rotate_drop_take)
qed

lemma studio_eval:
  "studio = \<lparr>globals = \<lparr>listeners = [\<lparr>sid = 0, on_write = Written\<rparr>], isLive = False,
       autodjTracks = [track_A, track_B], currentAutoDJIndex = 0, liveTitle = JString []\<rparr>,
     at = Fetching track_A, fresh = 1, wire = [], replies = []\<rparr>"
  by (simp add: studio_def boot_def initial_def loop_head_def loadRSS_def extract_tracks_def
      feed_AB_def item_to_track_def item_of_def listen_def track_A_def track_B_def)


lemma those_length: "those xs = Some ys \<Longrightarrow> length ys = length xs"
  by (induction xs arbitrary: ys) (auto split: option.splits)

lemma autoDJLoop_listeners:
  "autoDJLoop ev p s = (p', s', ds) \<Longrightarrow> listeners s' = listeners s"
  by (drule autoDJLoop_globals) (simp split: if_splits)

lemma live_route_listeners: "live_route req s = (r, s', ds) \<Longrightarrow> listeners s' = listeners s"
  by (auto simp: live_route_def post_live_def Let_def
      split: option.splits if_splits raw_body.splits prod.splits bool.splits json_verdict.splits)

lemma loadRSS_listeners: "listeners (loadRSS outcome s) = listeners s"
  by (simp add: loadRSS_def split: rss_outcome.splits option.splits)

lemma socket_sids:
  "map sid (map (\<lambda>r. if sid r = i then r\<lparr>on_write := wr\<rparr> else r) ls) = map sid ls"
  by (induction ls) simp_all

lemma sids_step:
  assumes "\<And>i. e \<noteq> Closed i"
  shows "map sid (listeners (globals (step e w))) =
         map sid (listeners (globals w)) @ (case e of Listen wr \<Rightarrow> [fresh w] | _ \<Rightarrow> [])"
proof (cases e)
  case (Sched ev)
  obtain p s ds where r: "autoDJLoop ev (at w) (globals w) = (p, s, ds)"
    by (cases "autoDJLoop ev (at w) (globals w)")
  from autoDJLoop_listeners[OF r] r Sched show ?thesis by simp
next
  case (LivePush req)
  obtain r s ds where r: "live_route req (globals w) = (r, s, ds)"
    by (cases "live_route req (globals w)")
  from live_route_listeners[OF r] r LivePush show ?thesis by simp
next
  case (Listen wr)
  then show ?thesis by (simp add: listen_def)
next
  case (Closed i)
  with assms[of i] show ?thesis by simp
next
  case (Socket i wr)
  then show ?thesis by (simp add: socket_sids)
next
  case (UpdateLiveTitle t)
  then show ?thesis by (simp add: update_live_title_def)
next
  case CurrentTrack
  then show ?thesis by simp
next
  case (ListenerStats a b c)
  then show ?thesis by simp
next
  case (LoadRSS out)
  then show ?thesis by (simp add: loadRSS_listeners)
qed

lemma takeWhile_all: "list_all P xs \<Longrightarrow> takeWhile P xs = xs"
  by (induction xs) auto

section \<open>The claims\<close>

subsection \<open>C1: the cursor advances once per full play\<close>

text \<open>
  C1.  An event advances the cursor exactly when it is the end of the body arriving while
  the loop reads that body; every other event, in particular a chunk that meets
  \<open>isLive\<close>, a failed read, a rejected fetch and every request, leaves the cursor as it
  is.  Over a run the cursor therefore grows by the number of bodies read to their end (as
  long as the sum stays within the exact range of numbers).  A chunk that meets \<open>isLive\<close>
  is not forwarded and ends the track without a change of state; the loop then sleeps.  A
  failed read or fetch returns to the head of the loop in the same state.  The head of the
  loop chooses by cursor and catalog only: in a later state with the same cursor and
  catalog, not live and with a listener, it chooses the same track and fetches it anew.
\<close>

theorem cursor_counts_full_plays:
  "currentAutoDJIndex (globals (step e w)) =
     (if e = Sched StreamEnd \<and> reading (at w) then js_increment (currentAutoDJIndex (globals w))
      else currentAutoDJIndex (globals w)) \<and>
   (currentAutoDJIndex (globals w) + full_plays w es \<le> 2 ^ 53 \<longrightarrow>
      currentAutoDJIndex (globals (run w es)) = currentAutoDJIndex (globals w) + full_plays w es) \<and>
   (at w = Reading t \<and> isLive (globals w) \<longrightarrow> step (Sched (Chunk c)) w = w\<lparr>at := Closing\<rparr>) \<and>
   (at w = Closing \<and> isLive (globals w) \<longrightarrow> step (Sched IteratorClosed) w = w\<lparr>at := Sleeping\<rparr>) \<and>
   (at w = Reading t \<longrightarrow> step (Sched StreamError) w = w\<lparr>at := loop_head (globals w)\<rparr>) \<and>
   (at w = Fetching t \<longrightarrow> step (Sched FetchRejected) w = w\<lparr>at := loop_head (globals w)\<rparr>) \<and>
   (loop_head s = Fetching t \<and> \<not> isLive s' \<and> listeners s' \<noteq> [] \<and>
    autodjTracks s' = autodjTracks s \<and> currentAutoDJIndex s' = currentAutoDJIndex s \<longrightarrow>
      loop_head s' = Fetching t)"
proof -
  have 3: "step (Sched (Chunk c)) w = w\<lparr>at := Closing\<rparr>" if "at w = Reading t" "isLive (globals w)"
    using that by simp
  have 4: "step (Sched IteratorClosed) w = w\<lparr>at := Sleeping\<rparr>" if "at w = Closing" "isLive (globals w)"
    using that by (simp add: after_track_def loop_head_def)
  have 5: "step (Sched StreamError) w = w\<lparr>at := loop_head (globals w)\<rparr>" if "at w = Reading t"
    using that by (simp add: after_track_def Let_def)
  have 6: "step (Sched FetchRejected) w = w\<lparr>at := loop_head (globals w)\<rparr>" if "at w = Fetching t"
    using that by (simp add: after_track_def Let_def)
  have 7: "loop_head s' = Fetching t"
    if "loop_head s = Fetching t" "\<not> isLive s'" "listeners s' \<noteq> []"
      "autodjTracks s' = autodjTracks s" "currentAutoDJIndex s' = currentAutoDJIndex s"
    using that by (auto simp: loop_head_def split: if_splits)
  show ?thesis
    using cursor_step[of e w] cursor_run[of w es] 3 4 5 6 7 by blast
qed

text \<open>
  From the studio state: a track whose read fails after one chunk and the same track
  fetched again and played to its end move the cursor from 0 to 1; a chunk that meets
  \<open>isLive\<close>; the closing that follows; a failed read and a rejected fetch, after which the
  loop waits for the fetch of track A again.
\<close>

theorem cursor_counts_full_plays_witness:
  "currentAutoDJIndex (globals (run studio
      [Sched FetchResolved, Sched (Chunk ''c1''), Sched StreamError,
       Sched FetchResolved, Sched (Chunk ''c1''), Sched (Chunk ''c2''), Sched StreamEnd])) = 1 \<and>
   step (Sched (Chunk ''c2''))
     (studio\<lparr>globals := (globals studio)\<lparr>isLive := True\<rparr>, at := Reading track_A\<rparr>)
     = studio\<lparr>globals := (globals studio)\<lparr>isLive := True\<rparr>, at := Closing\<rparr> \<and>
   step (Sched IteratorClosed)
     (studio\<lparr>globals := (globals studio)\<lparr>isLive := True\<rparr>, at := Closing\<rparr>)
     = studio\<lparr>globals := (globals studio)\<lparr>isLive := True\<rparr>, at := Sleeping\<rparr> \<and>
   step (Sched StreamError) (studio\<lparr>at := Reading track_A\<rparr>) = studio \<and>
   step (Sched FetchRejected) studio = studio"
proof -
  let ?es = "[Sched FetchResolved, Sched (Chunk ''c1''), Sched StreamError,
       Sched FetchResolved, Sched (Chunk ''c1''), Sched (Chunk ''c2''), Sched StreamEnd]"
  let ?live = "studio\<lparr>globals := (globals studio)\<lparr>isLive := True\<rparr>, at := Reading track_A\<rparr>"
  let ?closing = "studio\<lparr>globals := (globals studio)\<lparr>isLive := True\<rparr>, at := Closing\<rparr>"
  let ?reading = "studio\<lparr>at := Reading track_A\<rparr>"
  have fp: "full_plays studio ?es = 1"
    by (simp add: studio_eval after_track_def loop_head_def js_increment_def)
  have c0: "currentAutoDJIndex (globals studio) = 0" by (simp add: studio_eval)
  have h: "currentAutoDJIndex (globals studio) + full_plays studio ?es \<le> 2 ^ 53"
    using fp c0 by simp
  have "currentAutoDJIndex (globals (run studio ?es)) =
        currentAutoDJIndex (globals studio) + full_plays studio ?es"
    using cursor_counts_full_plays[where w = studio and es = ?es] h by blast
  then have 1: "currentAutoDJIndex (globals (run studio ?es)) = 1"
    using fp c0 by simp
  have l: "at ?live = Reading track_A \<and> isLive (globals ?live)" by simp
  have 2: "step (Sched (Chunk ''c2'')) ?live = ?live\<lparr>at := Closing\<rparr>"
    using cursor_counts_full_plays[where w = ?live and t = track_A and c = "''c2''"] l by blast
  have k: "at ?closing = Closing \<and> isLive (globals ?closing)" by simp
  have 3: "step (Sched IteratorClosed) ?closing = ?closing\<lparr>at := Sleeping\<rparr>"
    using cursor_counts_full_plays[where w = ?closing] k by blast
  have r: "at ?reading = Reading track_A" by simp
  have 4: "step (Sched StreamError) ?reading = ?reading\<lparr>at := loop_head (globals ?reading)\<rparr>"
    using cursor_counts_full_plays[where w = ?reading and t = track_A] r by blast
  have f: "at studio = Fetching track_A" by (simp add: studio_eval)
  have 5: "step (Sched FetchRejected) studio = studio\<lparr>at := loop_head (globals studio)\<rparr>"
    using cursor_counts_full_plays[where w = studio and t = track_A] f by blast
  have lh: "studio\<lparr>at := loop_head (globals studio)\<rparr> = studio"
    "?reading\<lparr>at := loop_head (globals ?reading)\<rparr> = studio"
    by (simp_all add: studio_eval loop_head_def)
  have e2: "?live\<lparr>at := Closing\<rparr> = ?closing" by simp
  have e3: "?closing\<lparr>at := Sleeping\<rparr> =
            studio\<lparr>globals := (globals studio)\<lparr>isLive := True\<rparr>, at := Sleeping\<rparr>" by simp
  show ?thesis
    using 1 2 3 4 5 by (simp only: lh e2 e3 simp_thms)
qed

subsection \<open>C2: a write that fails during the fan-out\<close>

text \<open>
  C2 as stated fails.  With a first sink whose \<open>write\<close> throws, the second sink does not
  receive the chunk of a live push, the sender is answered with status 500, and the first
  sink is still in the list.  With a first sink whose \<open>write\<close> fails without throwing, the
  second sink receives the chunk and the sender is answered with 200, and again the failing
  sink is still in the list.
\<close>

theorem throwing_sink_counterexample:
  "post_live (Buffer ''x'')
     \<lparr>listeners = [\<lparr>sid = 0, on_write = Thrown\<rparr>, \<lparr>sid = 1, on_write = Written\<rparr>], isLive = False,
      autodjTracks = [], currentAutoDJIndex = 0, liveTitle = JString []\<rparr>
   = (uncaught,
      \<lparr>listeners = [\<lparr>sid = 0, on_write = Thrown\<rparr>, \<lparr>sid = 1, on_write = Written\<rparr>], isLive = True,
       autodjTracks = [], currentAutoDJIndex = 0, liveTitle = JString []\<rparr>,
      []) \<and>
   status uncaught = 500 \<and>
   post_live (Buffer ''x'')
     \<lparr>listeners = [\<lparr>sid = 0, on_write = Dropped\<rparr>, \<lparr>sid = 1, on_write = Written\<rparr>], isLive = False,
      autodjTracks = [], currentAutoDJIndex = 0, liveTitle = JString []\<rparr>
   = (reply 200 (Text ''OK''),
      \<lparr>listeners = [\<lparr>sid = 0, on_write = Dropped\<rparr>, \<lparr>sid = 1, on_write = Written\<rparr>], isLive = True,
       autodjTracks = [], currentAutoDJIndex = 0, liveTitle = JString []\<rparr>,
      [(1, ''x'')])"
  by (simp add: post_live_def uncaught_def reply_def)

text \<open>
  C2, amended.  The fan-out writes to the sinks in list order up to the first one whose
  \<open>write\<close> throws, and it fails exactly when there is such a sink.  If no \<open>write\<close> throws,
  every sink that accepts writes receives the chunk and a live push is answered with 200,
  whatever the other sinks do.  If a \<open>write\<close> throws, a live push is answered with the
  error, and the loop leaves the track without having changed the state.  No event other
  than the \<^verbatim>\<open>close\<close> callback of a connection removes a listener: the identities in the
  list stay, in order, and \<^verbatim>\<open>/listen\<close> appends one.
\<close>

theorem fan_out_with_failing_sinks:
  "forEach_write rs c =
     (map (\<lambda>r. (sid r, c))
        (filter (\<lambda>r. on_write r = Written) (takeWhile (\<lambda>r. on_write r \<noteq> Thrown) rs)),
      list_all (\<lambda>r. on_write r \<noteq> Thrown) rs) \<and>
   (list_all (\<lambda>r. on_write r \<noteq> Thrown) (listeners s) \<longrightarrow>
      post_live (Buffer c) s =
        (reply 200 (Text ''OK''), s\<lparr>isLive := True\<rparr>,
         map (\<lambda>r. (sid r, c)) (filter (\<lambda>r. on_write r = Written) (listeners s)))) \<and>
   (\<not> list_all (\<lambda>r. on_write r \<noteq> Thrown) (listeners s) \<longrightarrow>
      fst (post_live (Buffer c) s) = uncaught) \<and>
   (at w = Reading t \<and> \<not> isLive (globals w) \<and>
    \<not> list_all (\<lambda>r. on_write r \<noteq> Thrown) (listeners (globals w)) \<longrightarrow>
      at (step (Sched (Chunk c)) w) = Closing \<and> globals (step (Sched (Chunk c)) w) = globals w) \<and>
   ((\<forall>i. e \<noteq> Closed i) \<longrightarrow>
      map sid (listeners (globals (step e w))) =
      map sid (listeners (globals w)) @ (case e of Listen wr \<Rightarrow> [fresh w] | _ \<Rightarrow> [])) \<and>
   listeners (on_close i s) = filter (\<lambda>r. sid r \<noteq> i) (listeners s)"
proof -
  have 1: "post_live (Buffer c) s =
        (reply 200 (Text ''OK''), s\<lparr>isLive := True\<rparr>,
         map (\<lambda>r. (sid r, c)) (filter (\<lambda>r. on_write r = Written) (listeners s)))"
    if "list_all (\<lambda>r. on_write r \<noteq> Thrown) (listeners s)"
    using that by (simp add: post_live_def forEach_write_char takeWhile_all)
  have 2: "fst (post_live (Buffer c) s) = uncaught"
    if "\<not> list_all (\<lambda>r. on_write r \<noteq> Thrown) (listeners s)"
    using that by (simp add: post_live_def forEach_write_char)
  have 3: "at (step (Sched (Chunk c)) w) = Closing \<and> globals (step (Sched (Chunk c)) w) = globals w"
    if "at w = Reading t" "\<not> isLive (globals w)"
      "\<not> list_all (\<lambda>r. on_write r \<noteq> Thrown) (listeners (globals w))"
    using that by (auto simp add: forEach_write_char)
  have 4: "map sid (listeners (globals (step e w))) =
      map sid (listeners (globals w)) @ (case e of Listen wr \<Rightarrow> [fresh w] | _ \<Rightarrow> [])"
    if "\<forall>i. e \<noteq> Closed i"
    using that sids_step[of e w] by blast
  have 5: "listeners (on_close i s) = filter (\<lambda>r. sid r \<noteq> i) (listeners s)"
    by (simp add: on_close_def)
  show ?thesis
    using forEach_write_char[of rs c] 1 2 3 4 5 by blast
qed

text \<open>
  A sink that drops writes beside a healthy one; a sink that throws beside a healthy one;
  the loop with a throwing sink; a connection that starts to throw stays in the list.
\<close>

theorem fan_out_with_failing_sinks_witness:
  "post_live (Buffer ''x'')
     ((globals studio)\<lparr>listeners := [\<lparr>sid = 0, on_write = Dropped\<rparr>, \<lparr>sid = 1, on_write = Written\<rparr>]\<rparr>)
   = (reply 200 (Text ''OK''),
      (globals studio)\<lparr>listeners := [\<lparr>sid = 0, on_write = Dropped\<rparr>, \<lparr>sid = 1, on_write = Written\<rparr>],
                       isLive := True\<rparr>,
      [(1, ''x'')]) \<and>
   fst (post_live (Buffer ''x'')
     ((globals studio)\<lparr>listeners := [\<lparr>sid = 0, on_write = Thrown\<rparr>, \<lparr>sid = 1, on_write = Written\<rparr>]\<rparr>))
   = uncaught \<and>
   at (step (Sched (Chunk ''x''))
     (studio\<lparr>globals := (globals studio)\<lparr>listeners := [\<lparr>sid = 0, on_write = Thrown\<rparr>]\<rparr>,
             at := Reading track_A\<rparr>)) = Closing \<and>
   map sid (listeners (globals (step (Socket 0 Thrown) studio))) = [0]"
proof -
  let ?s1 = "(globals studio)\<lparr>listeners := [\<lparr>sid = 0, on_write = Dropped\<rparr>, \<lparr>sid = 1, on_write = Written\<rparr>]\<rparr>"
  let ?s2 = "(globals studio)\<lparr>listeners := [\<lparr>sid = 0, on_write = Thrown\<rparr>, \<lparr>sid = 1, on_write = Written\<rparr>]\<rparr>"
  let ?w3 = "studio\<lparr>globals := (globals studio)\<lparr>listeners := [\<lparr>sid = 0, on_write = Thrown\<rparr>]\<rparr>,
             at := Reading track_A\<rparr>"
  have h1: "list_all (\<lambda>r. on_write r \<noteq> Thrown) (listeners ?s1)" by simp
  have 1: "post_live (Buffer ''x'') ?s1 =
        (reply 200 (Text ''OK''), ?s1\<lparr>isLive := True\<rparr>,
         map (\<lambda>r. (sid r, ''x'')) (filter (\<lambda>r. on_write r = Written) (listeners ?s1)))"
    using fan_out_with_failing_sinks[where s = ?s1 and c = "''x''"] h1 by blast
  have h2: "\<not> list_all (\<lambda>r. on_write r \<noteq> Thrown) (listeners ?s2)" by simp
  have 2: "fst (post_live (Buffer ''x'') ?s2) = uncaught"
    using fan_out_with_failing_sinks[where s = ?s2 and c = "''x''"] h2 by blast
  have h3: "at ?w3 = Reading track_A \<and> \<not> isLive (globals ?w3) \<and>
    \<not> list_all (\<lambda>r. on_write r \<noteq> Thrown) (listeners (globals ?w3))"
    by (simp add: studio_eval)
  have 3: "at (step (Sched (Chunk ''x'')) ?w3) = Closing"
    using fan_out_with_failing_sinks[where w = ?w3 and c = "''x''" and t = track_A] h3 by blast
  have h4: "\<forall>i. Socket 0 Thrown \<noteq> Closed i" by simp
  have 4: "map sid (listeners (globals (step (Socket 0 Thrown) studio))) =
      map sid (listeners (globals studio)) @ (case Socket 0 Thrown of Listen wr \<Rightarrow> [fresh studio] | _ \<Rightarrow> [])"
    using fan_out_with_failing_sinks[where w = studio and e = "Socket 0 Thrown"] h4 by blast
  have 4: "map sid (listeners (globals (step (Socket 0 Thrown) studio))) = [0]"
    unfolding 4 by (simp add: studio_eval)
  show ?thesis using 1 2 3 4 by simp
qed

subsection \<open>C3: a push without valid credentials\<close>

text \<open>
  C3 as stated fails.  A push without credentials whose body is announced as JSON and does
  not parse is answered by the JSON parser of line 24, which runs before the credential
  check of line 138: the status is 400, not 401, and there is no challenge header.
\<close>

theorem unparsable_json_push_counterexample:
  "auth \<lparr>json_parser = JsonRejected 400, auth = None, too_large = False, body = NotBuffer\<rparr>
     \<noteq> Some good_credentials \<and>
   live_route \<lparr>json_parser = JsonRejected 400, auth = None, too_large = False, body = NotBuffer\<rparr>
     initial = (reply 400 ErrorPage, initial, []) \<and>
   status (reply 400 ErrorPage) \<noteq> 401 \<and>
   headers (reply 400 ErrorPage) = []"
  by (simp add: live_route_def reply_def)

text \<open>
  C3, amended.  A push to the ingest route whose credentials are absent or are not the
  expected pair never changes the program state, so \<open>isLive\<close> is not set, never moves the
  loop, and writes nothing to any sink.  If the JSON parser passes the request on, the
  answer is status 401 with a \<^verbatim>\<open>WWW-Authenticate\<close> challenge; if the JSON parser rejects the
  request, the answer is the parser's error and carries no challenge.
\<close>

theorem unauthenticated_push_is_rejected:
  assumes "auth req \<noteq> Some good_credentials"
  shows "globals (step (LivePush req) w) = globals w \<and>
         at (step (LivePush req) w) = at w \<and>
         wire (step (LivePush req) w) = wire w \<and>
         (json_parser req = JsonPassed \<longrightarrow>
            live_route req s = (unauthorized, s, []) \<and>
            step (LivePush req) w = w\<lparr>replies := replies w @ [unauthorized]\<rparr>) \<and>
         (json_parser req = JsonRejected code \<longrightarrow>
            live_route req s = (reply code ErrorPage, s, []) \<and>
            step (LivePush req) w = w\<lparr>replies := replies w @ [reply code ErrorPage]\<rparr> \<and>
            headers (reply code ErrorPage) = []) \<and>
         status unauthorized = 401 \<and>
         ''WWW-Authenticate'' \<in> fst ` set (headers unauthorized)"
proof -
  have m: "basicAuthMiddleware (auth req) = Some unauthorized"
    using assms by (cases "auth req") (auto simp: basicAuthMiddleware_def good_credentials_def)
  have r: "live_route req s' =
      (case json_parser req of JsonPassed \<Rightarrow> unauthorized
                            | JsonRejected code \<Rightarrow> reply code ErrorPage, s', [])" for s'
    using m by (simp add: live_route_def split: json_verdict.splits)
  have 1: "globals (step (LivePush req) w) = globals w \<and> at (step (LivePush req) w) = at w \<and>
           wire (step (LivePush req) w) = wire w"
    by (simp add: r)
  have 2: "live_route req s = (unauthorized, s, []) \<and>
           step (LivePush req) w = w\<lparr>replies := replies w @ [unauthorized]\<rparr>"
    if "json_parser req = JsonPassed"
    using that by (simp add: r)
  have 3: "live_route req s = (reply code ErrorPage, s, []) \<and>
           step (LivePush req) w = w\<lparr>replies := replies w @ [reply code ErrorPage]\<rparr> \<and>
           headers (reply code ErrorPage) = []"
    if "json_parser req = JsonRejected code"
    using that by (simp add: r reply_def)
  have 4: "status unauthorized = 401 \<and> ''WWW-Authenticate'' \<in> fst ` set (headers unauthorized)"
    by (simp add: unauthorized_def)
  show ?thesis using 1 2 3 4 by blast
qed

text \<open>
  In a state with one listener: a wrong password and no credentials at all, with a body
  that the JSON parser passes on, are answered with 401; no credentials with a body that
  the JSON parser rejects are answered with 400; the wire stays empty each time.
\<close>

theorem unauthenticated_push_is_rejected_witness:
  "step (LivePush \<lparr>json_parser = JsonPassed, auth = Some \<lparr>name = ''supernatural'', pass = ''guess''\<rparr>,
                    too_large = False, body = Buffer ''x''\<rparr>) studio
     = studio\<lparr>replies := [unauthorized]\<rparr> \<and>
   step (LivePush \<lparr>json_parser = JsonPassed, auth = None, too_large = False, body = Buffer ''x''\<rparr>) studio
     = studio\<lparr>replies := [unauthorized]\<rparr> \<and>
   step (LivePush \<lparr>json_parser = JsonRejected 400, auth = None, too_large = False, body = NotBuffer\<rparr>)
      studio = studio\<lparr>replies := [reply 400 ErrorPage]\<rparr> \<and>
   wire (step (LivePush \<lparr>json_parser = JsonPassed, auth = None, too_large = False,
                         body = Buffer ''x''\<rparr>) studio) = []"
proof -
  let ?r1 = "\<lparr>json_parser = JsonPassed, auth = Some \<lparr>name = ''supernatural'', pass = ''guess''\<rparr>,
              too_large = False, body = Buffer ''x''\<rparr>"
  let ?r2 = "\<lparr>json_parser = JsonPassed, auth = None, too_large = False, body = Buffer ''x''\<rparr>"
  let ?r3 = "\<lparr>json_parser = JsonRejected 400, auth = None, too_large = False, body = NotBuffer\<rparr>"
  have h1: "auth ?r1 \<noteq> Some good_credentials" by (simp add: good_credentials_def)
  have h2: "auth ?r2 \<noteq> Some good_credentials" by simp
  have h3: "auth ?r3 \<noteq> Some good_credentials" by simp
  have p1: "json_parser ?r1 = JsonPassed" and p2: "json_parser ?r2 = JsonPassed"
    and p3: "json_parser ?r3 = JsonRejected 400" by simp_all
  have e: "replies studio = []" "wire studio = []" by (simp_all add: studio_eval)
  have 1: "step (LivePush ?r1) studio = studio\<lparr>replies := replies studio @ [unauthorized]\<rparr>"
    using unauthenticated_push_is_rejected[OF h1, where w = studio] p1 by blast
  have 2: "step (LivePush ?r2) studio = studio\<lparr>replies := replies studio @ [unauthorized]\<rparr>"
    and 4: "wire (step (LivePush ?r2) studio) = wire studio"
    using unauthenticated_push_is_rejected[OF h2, where w = studio] p2 by blast+
  have 3: "step (LivePush ?r3) studio = studio\<lparr>replies := replies studio @ [reply 400 ErrorPage]\<rparr>"
    using unauthenticated_push_is_rejected[OF h3, where w = studio and code = 400] p3 by blast
  show ?thesis
    using 1 2 3 4 by (simp only: e append_Nil simp_thms)
qed

subsection \<open>C4: the pause without listeners\<close>

text \<open>
  C4 as stated fails.  Track A has the chunks c1, c2, c3.  The only listener leaves after
  c1; c2 arrives while nobody listens and the loop sleeps; a new listener arrives during the
  sleep; the timer fires; c3 arrives and the body ends.  The new listener is in the list
  when the sleep ends, yet c2 is written to nobody; the track counts as played.
\<close>

theorem dropped_chunk_counterexample:
  "wire (run studio [Sched FetchResolved, Sched (Chunk ''c1''), Closed 0, Sched (Chunk ''c2''),
       Listen Written, Sched TimerFired, Sched (Chunk ''c3''), Sched StreamEnd])
     = [(0, ''c1''), (1, ''c3'')] \<and>
   listeners (globals (run studio [Sched FetchResolved, Sched (Chunk ''c1''), Closed 0,
       Sched (Chunk ''c2''), Listen Written])) = [\<lparr>sid = 1, on_write = Written\<rparr>] \<and>
   at (run studio [Sched FetchResolved, Sched (Chunk ''c1''), Closed 0,
       Sched (Chunk ''c2''), Listen Written]) = Paused track_A \<and>
   currentAutoDJIndex (globals (run studio [Sched FetchResolved, Sched (Chunk ''c1''), Closed 0,
       Sched (Chunk ''c2''), Listen Written, Sched TimerFired, Sched (Chunk ''c3''), Sched StreamEnd])) = 1"
  by (simp add: studio_eval on_close_def listen_def after_track_def js_increment_def loop_head_def)

text \<open>
  C4, amended.  A chunk that arrives while the loop is not live and nobody listens is not
  forwarded: the loop keeps the track and sleeps.  No request ends that sleep or the
  track.  When the timer fires the loop reads the same body on, at the next chunk.  A chunk
  that arrives while somebody listens, and no \<open>write\<close> throws, goes to every sink that
  accepts writes.  When the body ends the cursor advances by one (within the exact range
  of numbers), whether or not chunks were skipped during a pause.
\<close>

theorem pause_without_listeners:
  "(at w = Reading t \<and> \<not> isLive (globals w) \<and> listeners (globals w) = [] \<longrightarrow>
      step (Sched (Chunk c)) w = w\<lparr>at := Paused t\<rparr>) \<and>
   (at w = Paused t \<and> (\<forall>ev. e \<noteq> Sched ev) \<longrightarrow> at (step e w) = Paused t) \<and>
   (at w = Paused t \<longrightarrow> step (Sched TimerFired) w = w\<lparr>at := Reading t\<rparr>) \<and>
   (at w = Reading t \<and> quiet (globals w) \<longrightarrow>
      step (Sched (Chunk c)) w =
        w\<lparr>wire := wire w @ map (\<lambda>r. (sid r, c))
                             (filter (\<lambda>r. on_write r = Written) (listeners (globals w)))\<rparr>) \<and>
   (at w = Reading t \<and> currentAutoDJIndex (globals w) < 2 ^ 53 \<longrightarrow>
      globals (step (Sched StreamEnd) w) =
        (globals w)\<lparr>currentAutoDJIndex := currentAutoDJIndex (globals w) + 1\<rparr>)"
proof -
  have 2: "at (step e w) = Paused t" if "at w = Paused t" "\<forall>ev. e \<noteq> Sched ev"
    using step_at_env[of e w] that by simp
  have 4: "step (Sched (Chunk c)) w =
        w\<lparr>wire := wire w @ map (\<lambda>r. (sid r, c))
                             (filter (\<lambda>r. on_write r = Written) (listeners (globals w)))\<rparr>"
    if "at w = Reading t" "quiet (globals w)"
    using that by (simp add: quiet_def forEach_write_char takeWhile_all)
  have 1: "step (Sched (Chunk c)) w = w\<lparr>at := Paused t\<rparr>"
    if "at w = Reading t" "\<not> isLive (globals w)" "listeners (globals w) = []"
    using that by simp
  have 3: "step (Sched TimerFired) w = w\<lparr>at := Reading t\<rparr>" if "at w = Paused t"
    using that by simp
  have 5: "globals (step (Sched StreamEnd) w) =
        (globals w)\<lparr>currentAutoDJIndex := currentAutoDJIndex (globals w) + 1\<rparr>"
    if "at w = Reading t" "currentAutoDJIndex (globals w) < 2 ^ 53"
    using that by (simp add: after_track_def js_increment_def Let_def)
  show ?thesis using 1 2 3 4 5 by blast
qed

text \<open>
  The steps of the pause on the studio state: the chunk that meets an empty list, a
  listener arriving during the sleep, the timer, a forwarded chunk, the end of the body.
\<close>

theorem pause_without_listeners_witness:
  "step (Sched (Chunk ''c2''))
     (studio\<lparr>globals := (globals studio)\<lparr>listeners := []\<rparr>, at := Reading track_A\<rparr>)
     = studio\<lparr>globals := (globals studio)\<lparr>listeners := []\<rparr>, at := Paused track_A\<rparr> \<and>
   at (step (Listen Written)
     (studio\<lparr>globals := (globals studio)\<lparr>listeners := []\<rparr>, at := Paused track_A\<rparr>)) = Paused track_A \<and>
   step (Sched TimerFired) (studio\<lparr>at := Paused track_A\<rparr>) = studio\<lparr>at := Reading track_A\<rparr> \<and>
   step (Sched (Chunk ''c3'')) (studio\<lparr>at := Reading track_A\<rparr>)
     = studio\<lparr>at := Reading track_A, wire := [(0, ''c3'')]\<rparr> \<and>
   currentAutoDJIndex (globals (step (Sched StreamEnd) (studio\<lparr>at := Reading track_A\<rparr>))) = 1"
proof -
  let ?w0 = "studio\<lparr>globals := (globals studio)\<lparr>listeners := []\<rparr>, at := Reading track_A\<rparr>"
  let ?w1 = "studio\<lparr>globals := (globals studio)\<lparr>listeners := []\<rparr>, at := Paused track_A\<rparr>"
  let ?w2 = "studio\<lparr>at := Paused track_A\<rparr>"
  let ?w3 = "studio\<lparr>at := Reading track_A\<rparr>"
  have h1: "at ?w0 = Reading track_A \<and> \<not> isLive (globals ?w0) \<and> listeners (globals ?w0) = []"
    by (simp add: studio_eval)
  have 1: "step (Sched (Chunk ''c2'')) ?w0 = ?w0\<lparr>at := Paused track_A\<rparr>"
    using pause_without_listeners[where w = ?w0 and t = track_A and c = "''c2''"] h1 by blast
  have h2: "at ?w1 = Paused track_A \<and> (\<forall>ev. Listen Written \<noteq> Sched ev)" by simp
  have 2: "at (step (Listen Written) ?w1) = Paused track_A"
    using pause_without_listeners[where w = ?w1 and t = track_A and e = "Listen Written"] h2 by blast
  have h3: "at ?w2 = Paused track_A" by simp
  have 3: "step (Sched TimerFired) ?w2 = ?w2\<lparr>at := Reading track_A\<rparr>"
    using pause_without_listeners[where w = ?w2 and t = track_A] h3 by blast
  have h4: "at ?w3 = Reading track_A \<and> quiet (globals ?w3)"
    by (simp add: studio_eval quiet_def)
  have 4: "step (Sched (Chunk ''c3'')) ?w3 =
        ?w3\<lparr>wire := wire ?w3 @ map (\<lambda>r. (sid r, ''c3''))
                             (filter (\<lambda>r. on_write r = Written) (listeners (globals ?w3)))\<rparr>"
    using pause_without_listeners[where w = ?w3 and t = track_A and c = "''c3''"] h4 by blast
  have h5: "at ?w3 = Reading track_A \<and> currentAutoDJIndex (globals ?w3) < 2 ^ 53"
    by (simp add: studio_eval)
  have 5: "globals (step (Sched StreamEnd) ?w3) =
        (globals ?w3)\<lparr>currentAutoDJIndex := currentAutoDJIndex (globals ?w3) + 1\<rparr>"
    using pause_without_listeners[where w = ?w3 and t = track_A] h5 by blast
  have e1: "?w0\<lparr>at := Paused track_A\<rparr> = ?w1" by simp
  have e3: "?w2\<lparr>at := Reading track_A\<rparr> = ?w3" by simp
  have e4: "?w3\<lparr>wire := wire ?w3 @ map (\<lambda>r. (sid r, ''c3''))
                             (filter (\<lambda>r. on_write r = Written) (listeners (globals ?w3)))\<rparr>
            = studio\<lparr>at := Reading track_A, wire := [(0, ''c3'')]\<rparr>"
    by (simp add: studio_eval)
  have e5: "currentAutoDJIndex ((globals ?w3)\<lparr>currentAutoDJIndex := currentAutoDJIndex (globals ?w3) + 1\<rparr>) = 1"
    by (simp add: studio_eval)
  show ?thesis
    using 1 2 3 4 5 e5 by (simp only: e1 e3 e4 simp_thms)
qed

subsection \<open>C5: refreshing the catalog\<close>

text \<open>
  C5 as stated fails.  A feed that is fetched and parsed, and whose channel has no item,
  reaches the callback as an object without the property \<^verbatim>\<open>item\<close>; \<^verbatim>\<open>.map\<close> on it
  throws, and the catalog of two tracks stays instead of becoming empty.
\<close>

theorem empty_feed_counterexample:
  "extract_tracks feed_without_items = None \<and>
   loadRSS (Parsed feed_without_items) (globals studio) = globals studio \<and>
   autodjTracks (loadRSS (Parsed feed_without_items) (globals studio)) = [track_A, track_B]"
  by (simp add: loadRSS_def extract_tracks_def feed_without_items_def studio_eval)

text \<open>
  C5, amended.  A failed fetch, a failed read of the text and a parse error leave the
  catalog as it was; so does every parsed document on which the callback throws, among
  them every document whose first channel has no item.  A parsed document whose first
  channel has the items \<open>items\<close>, each with a title and with an enclosure that has
  attributes, replaces the catalog by one track per item.  With an empty catalog the head
  of the loop sleeps, and the timer leads back to the same sleep without any other effect.
\<close>

theorem catalog_refresh:
  "(outcome = FetchFailed \<or> outcome = TextFailed \<or> outcome = ParseError \<longrightarrow> loadRSS outcome s = s) \<and>
   (extract_tracks result = None \<longrightarrow> loadRSS (Parsed result) s = s) \<and>
   (result = Some r \<and> rss r = Some root \<and> channel root = Some (ch # chs) \<and> item ch = None \<longrightarrow>
      loadRSS (Parsed result) s = s) \<and>
   (result = Some r \<and> rss r = Some root \<and> channel root = Some (ch # chs) \<and> item ch = Some items \<and>
    those (map item_to_track items) = Some ts \<longrightarrow>
      loadRSS (Parsed result) s = s\<lparr>autodjTracks := ts\<rparr> \<and> length ts = length items) \<and>
   (autodjTracks s = [] \<longrightarrow>
      loop_head s = Sleeping \<and> autoDJLoop TimerFired Sleeping s = (Sleeping, s, []))"
proof -
  have "length ts = length items" if "those (map item_to_track items) = Some ts"
    using those_length[OF that] by simp
  then show ?thesis
    by (auto simp: loadRSS_def extract_tracks_def loop_head_def)
qed

text \<open>
  A failed fetch, the document \<^verbatim>\<open>null\<close>, the feed without items, the feed with two items,
  and the loop on the initial, empty catalog.
\<close>

theorem catalog_refresh_witness:
  "loadRSS FetchFailed (globals studio) = globals studio \<and>
   loadRSS (Parsed None) (globals studio) = globals studio \<and>
   loadRSS (Parsed feed_without_items) (globals studio) = globals studio \<and>
   loadRSS (Parsed feed_AB) initial = initial\<lparr>autodjTracks := [track_A, track_B]\<rparr> \<and>
   autoDJLoop TimerFired Sleeping initial = (Sleeping, initial, [])"
proof -
  have 1: "extract_tracks None = None" by (simp add: extract_tracks_def)
  have 2: "those (map item_to_track [item_of ''A'' ''a.mp3'', item_of ''B'' ''b.mp3'']) = Some [track_A, track_B]"
    by (simp add: item_to_track_def item_of_def track_A_def track_B_def)
  have 3: "autodjTracks initial = []" by (simp add: initial_def)
  show ?thesis
    using catalog_refresh[of FetchFailed "globals studio"]
      catalog_refresh[where result = None and s = "globals studio"] 1
      catalog_refresh[where result = feed_without_items and s = "globals studio"
        and r = "\<lparr>rss = Some \<lparr>channel = Some [\<lparr>item = None\<rparr>]\<rparr>\<rparr>"
        and root = "\<lparr>channel = Some [\<lparr>item = None\<rparr>]\<rparr>" and ch = "\<lparr>item = None\<rparr>" and chs = "[]"]
      catalog_refresh[where result = feed_AB and s = initial
        and r = "\<lparr>rss = Some \<lparr>channel = Some [\<lparr>item = Some [item_of ''A'' ''a.mp3'', item_of ''B'' ''b.mp3'']\<rparr>]\<rparr>\<rparr>"
        and root = "\<lparr>channel = Some [\<lparr>item = Some [item_of ''A'' ''a.mp3'', item_of ''B'' ''b.mp3'']\<rparr>]\<rparr>"
        and ch = "\<lparr>item = Some [item_of ''A'' ''a.mp3'', item_of ''B'' ''b.mp3'']\<rparr>" and chs = "[]"
        and items = "[item_of ''A'' ''a.mp3'', item_of ''B'' ''b.mp3'']" and ts = "[track_A, track_B]"] 2
      catalog_refresh[where s = initial] 3
    by (simp add: feed_without_items_def feed_AB_def)
qed

subsection \<open>C6: the current-track query\<close>

text \<open>
  C6.  Live with a non-empty title: that title, status 200.  Live with the empty title:
  status 404 with the message that no title is set, whatever the catalog holds.  Not live
  with an empty catalog: status 404 with the message that no track is loaded.  The two 404
  answers differ.
\<close>

theorem current_track_answers:
  "(isLive s \<and> liveTitle s = JString t \<and> t \<noteq> [] \<longrightarrow>
      current_track s = reply 200 (CurrentTrackTitle (JString t))) \<and>
   (isLive s \<and> liveTitle s = JString [] \<longrightarrow>
      current_track s = reply 404 (Message ''Live stream is on, but no title set.'')) \<and>
   (\<not> isLive s \<and> autodjTracks s = [] \<longrightarrow>
      current_track s = reply 404 (Message ''No AutoDJ track loaded.'')) \<and>
   reply 404 (Message ''Live stream is on, but no title set.'')
     \<noteq> reply 404 (Message ''No AutoDJ track loaded.'')"
  by (auto simp: current_track_def reply_def)

text \<open>The three cases on concrete states; the second has a catalog of two tracks.\<close>

theorem current_track_answers_witness:
  "current_track ((globals studio)\<lparr>isLive := True, liveTitle := JString ''Sunday''\<rparr>)
     = reply 200 (CurrentTrackTitle (JString ''Sunday'')) \<and>
   current_track ((globals studio)\<lparr>isLive := True\<rparr>)
     = reply 404 (Message ''Live stream is on, but no title set.'') \<and>
   autodjTracks ((globals studio)\<lparr>isLive := True\<rparr>) \<noteq> [] \<and>
   current_track initial = reply 404 (Message ''No AutoDJ track loaded.'')"
  using current_track_answers[of "(globals studio)\<lparr>isLive := True, liveTitle := JString ''Sunday''\<rparr>" "''Sunday''"]
    current_track_answers[of "(globals studio)\<lparr>isLive := True\<rparr>" "[]"]
    current_track_answers[of initial "[]"]
  by (simp add: studio_eval initial_def)

subsection \<open>C7: the title update\<close>




subsection \<open>C8: live is sticky\<close>

text \<open>
  C8.  \<open>isLive\<close> is false at the start; a push that reaches the handler, that is, one that
  passes the JSON parser, the credential check and the raw body parser, sets it, whatever
  happens to the writes; no event resets it, so it holds after every continuation of a run,
  in particular after every run that contains such a push.
\<close>

theorem isLive_is_sticky:
  "\<not> isLive (globals boot) \<and>
   (json_parser req = JsonPassed \<and> auth req = Some good_credentials \<and> \<not> too_large req \<longrightarrow>
      isLive (globals (step (LivePush req) w)) \<and>
      isLive (globals (run w (es @ LivePush req # fs)))) \<and>
   (isLive (globals w) \<longrightarrow> isLive (globals (step e w)) \<and> isLive (globals (run w es)))"
proof -
  have push: "isLive (globals (step (LivePush req) w'))"
    if "json_parser req = JsonPassed" "auth req = Some good_credentials" "\<not> too_large req" for w'
    using that
    by (auto simp: live_route_def post_live_def Let_def basicAuthMiddleware_def good_credentials_def
        split: prod.splits raw_body.splits bool.splits)
  have "isLive (globals (run w (es @ LivePush req # fs)))"
    if "json_parser req = JsonPassed" "auth req = Some good_credentials" "\<not> too_large req"
    using push[OF that, of "run w es"] isLive_run[of "step (LivePush req) (run w es)" fs]
    by (simp add: run_append del: step.simps)
  then show ?thesis
    using push isLive_step isLive_run by (auto simp: boot_def initial_def simp del: step.simps)
qed

text \<open>A run from the start with one accepted push, and a run from a live state.\<close>

theorem isLive_is_sticky_witness:
  "isLive (globals (run boot [LivePush \<lparr>json_parser = JsonPassed, auth = Some good_credentials, too_large = False, body = Buffer ''x''\<rparr>,
      Listen Written, LoadRSS (Parsed feed_AB), Sched TimerFired, UpdateLiveTitle (JString ''t''), Closed 0])) \<and>
   isLive (globals (run (studio\<lparr>globals := (globals studio)\<lparr>isLive := True\<rparr>\<rparr>) [Sched FetchResolved, Sched StreamEnd]))"
  using isLive_is_sticky[of "\<lparr>json_parser = JsonPassed, auth = Some good_credentials, too_large = False, body = Buffer ''x''\<rparr>" boot "[]"
      "[Listen Written, LoadRSS (Parsed feed_AB), Sched TimerFired, UpdateLiveTitle (JString ''t''), Closed 0]"]
    isLive_is_sticky[where w = "studio\<lparr>globals := (globals studio)\<lparr>isLive := True\<rparr>\<rparr>"
      and es = "[Sched FetchResolved, Sched StreamEnd]"]
  by (simp del: step.simps run.simps)

subsection \<open>C9: rotation through the catalog\<close>

text \<open>
  C9.  In a quiet state at the head of the loop, after any number of tracks played without
  interruption the loop is fetching the track at position (cursor + number of plays) modulo
  the catalog length, the cursor has advanced by one per play and nothing else has changed
  (within the exact range of numbers); with no play yet this is the track at cursor modulo
  length.  Over as many consecutive plays as the catalog is long, each track is chosen
  exactly once.
\<close>

theorem rotation_by_cursor:
  assumes "quiet (globals w)" and "at w = loop_head (globals w)"
    and "currentAutoDJIndex (globals w) + length css \<le> 2 ^ 53"
  shows "at (run w (concat (map play css))) =
           Fetching (autodjTracks (globals w) !
             ((currentAutoDJIndex (globals w) + length css) mod length (autodjTracks (globals w)))) \<and>
         globals (run w (concat (map play css))) =
           (globals w)\<lparr>currentAutoDJIndex := currentAutoDJIndex (globals w) + length css\<rparr> \<and>
         mset (map (\<lambda>k. autodjTracks (globals w) !
                 ((currentAutoDJIndex (globals w) + k) mod length (autodjTracks (globals w))))
               [0..<length (autodjTracks (globals w))]) = mset (autodjTracks (globals w))"
proof -
  let ?g = "(globals w)\<lparr>currentAutoDJIndex := currentAutoDJIndex (globals w) + length css\<rparr>"
  have q: "quiet ?g" using assms(1) by (simp add: quiet_def)
  from run_plays[OF assms] loop_head_quiet[OF q] show ?thesis
    by (simp add: cycle_rotate mset_rotate_eq)
qed

text \<open>
  The catalog [A, B] with cursor 0: the loop fetches A, after one play B, after two plays A
  again.
\<close>

theorem rotation_by_cursor_witness:
  "at studio = Fetching track_A \<and>
   at (run studio (play [''a1'', ''a2''])) = Fetching track_B \<and>
   at (run studio (play [''a1'', ''a2''] @ play [''b1''])) = Fetching track_A \<and>
   currentAutoDJIndex (globals (run studio (play [''a1'', ''a2''] @ play [''b1'']))) = 2 \<and>
   mset [track_A, track_B] = mset (autodjTracks (globals studio))"
proof -
  have q: "quiet (globals studio)" by (simp add: studio_eval quiet_def)
  have a: "at studio = loop_head (globals studio)" by (simp add: studio_eval loop_head_def)
  have c: "currentAutoDJIndex (globals studio) = 0" "autodjTracks (globals studio) = [track_A, track_B]"
    by (simp_all add: studio_eval)
  have b1: "currentAutoDJIndex (globals studio) + length [[''a1'', ''a2'']] \<le> 2 ^ 53"
    and b2: "currentAutoDJIndex (globals studio) + length [[''a1'', ''a2''], [''b1'']] \<le> 2 ^ 53"
    using c by simp_all
  have 0: "at studio = Fetching track_A" by (simp add: studio_eval)
  have 1: "at (run studio (play [''a1'', ''a2''])) = Fetching track_B"
    using rotation_by_cursor[OF q a b1] c by simp
  have 2: "at (run studio (play [''a1'', ''a2''] @ play [''b1''])) = Fetching track_A"
    "currentAutoDJIndex (globals (run studio (play [''a1'', ''a2''] @ play [''b1'']))) = 2"
    using rotation_by_cursor[OF q a b2] c by simp_all
  show ?thesis using 0 1 2 c by simp
qed

subsection \<open>C10: listener statistics with a missing bound\<close>

text \<open>
  C10.  When \<open>start\<close> or \<open>end\<close> is missing, the answer is the length of the listener list,
  the same as without any bound and independent of the attendance store; an answer other
  than that count arises only with both bounds present, and is then the store's.
\<close>

theorem stats_with_a_missing_bound:
  "(start = JUndefined \<or> end = JUndefined \<longrightarrow>
      listener_stats agg start end s = reply 200 (ActiveListeners (length (listeners s))) \<and>
      listener_stats agg start end s = listener_stats agg' JUndefined JUndefined s) \<and>
   (listener_stats agg start end s \<noteq> reply 200 (ActiveListeners (length (listeners s))) \<longrightarrow>
      start \<noteq> JUndefined \<and> end \<noteq> JUndefined \<and>
      listener_stats agg start end s =
        (case agg start end of Some n \<Rightarrow> reply 200 (UniqueIPsCount n)
                            | None \<Rightarrow> reply 500 (ErrorText ''Error fetching stats.'')))"
  by (auto simp: listener_stats_def reply_def split: option.splits if_splits)

text \<open>Only \<open>start\<close>, only \<open>end\<close>, and both.\<close>

theorem stats_with_a_missing_bound_witness:
  "listener_stats (\<lambda>a b. Some 5) (JString ''2024-01-01'') JUndefined (globals studio)
     = reply 200 (ActiveListeners 1) \<and>
   listener_stats (\<lambda>a b. Some 5) JUndefined (JString ''2024-01-31'') (globals studio)
     = listener_stats (\<lambda>a b. None) JUndefined JUndefined (globals studio) \<and>
   listener_stats (\<lambda>a b. Some 5) (JString ''2024-01-01'') (JString ''2024-01-31'') (globals studio)
     = reply 200 (UniqueIPsCount 5)"
proof -
  have "listener_stats (\<lambda>a b. Some 5) (JString ''2024-01-01'') (JString ''2024-01-31'') (globals studio)
     \<noteq> reply 200 (ActiveListeners (length (listeners (globals studio))))"
    by (simp add: listener_stats_def reply_def)
  then show ?thesis
  using stats_with_a_missing_bound[of "JString ''2024-01-01''" JUndefined "\<lambda>a b. Some 5" "globals studio"]
    stats_with_a_missing_bound[of JUndefined "JString ''2024-01-31''" "\<lambda>a b. Some 5" "globals studio" "\<lambda>a b. None"]
    stats_with_a_missing_bound[of "JString ''2024-01-01''" "JString ''2024-01-31''" "\<lambda>a b. Some 5" "globals studio"]
  by (simp add: studio_eval)
qed

end
